theory Spec2Isabelle
  imports Complex_Main "HOL-Library.Word"
begin

unbundle bit_operations_syntax

section \<open>Outcomes of a run\<close>

text \<open>
  Every function of the model that loops or indexes a vector returns an outcome:
  \<open>Done v\<close> when the source returns \<open>v\<close>, \<open>Fault f\<close> when the source would
  leave defined behaviour (an index outside a vector, a signed shift that overflows,
  a resize to a negative size), and \<open>NoFuel\<close> when the step budget given to the model
  ran out. The budget bounds the depth of the recursion and the number of iterations
  of every loop, so a run that yields \<open>NoFuel\<close> for every budget is a run that
  never returns.
\<close>

datatype fault = OutOfRange | ShiftOverflow | BadAlloc

datatype 'a outcome = NoFuel | Fault fault | Done 'a

definition obind :: "'a outcome \<Rightarrow> ('a \<Rightarrow> 'b outcome) \<Rightarrow> 'b outcome" where
  "obind m f = (case m of NoFuel \<Rightarrow> NoFuel | Fault e \<Rightarrow> Fault e | Done v \<Rightarrow> f v)"

section \<open>Addresses: ipv4 and ipv6\<close>

text \<open>
  \<open>typedef uint32_t ipv4\<close> and \<open>struct ipv6 { uint64_t hi; uint64_t lo; }\<close>.
  C++ leaves the value of \<open>x << k\<close> and \<open>x >> k\<close> on an unsigned \<open>w\<close>-bit \<open>x\<close>
  undefined when \<open>k\<close> is outside \<open>0..w-1\<close>. \<open>EXTRACT\<close> and \<open>REMOVE\<close> reach such
  counts on ordinary arguments (\<open>EXTRACT(0, 0, x)\<close> shifts right by 32), so the
  model takes what the machine returns there from a parameter, the platform;
  every theorem that mentions a platform holds for all of them unless it names one.
\<close>

type_synonym ipv4 = "32 word"

record ipv6 =
  hi :: "64 word"
  lo :: "64 word"

record platform =
  shl32_ov :: "32 word \<Rightarrow> int \<Rightarrow> 32 word"
  shr32_ov :: "32 word \<Rightarrow> int \<Rightarrow> 32 word"
  shl64_ov :: "64 word \<Rightarrow> int \<Rightarrow> 64 word"
  shr64_ov :: "64 word \<Rightarrow> int \<Rightarrow> 64 word"

definition shl32 :: "platform \<Rightarrow> 32 word \<Rightarrow> int \<Rightarrow> 32 word" where
  "shl32 pf w k = (if 0 \<le> k \<and> k < 32 then push_bit (nat k) w else shl32_ov pf w k)"

definition shr32 :: "platform \<Rightarrow> 32 word \<Rightarrow> int \<Rightarrow> 32 word" where
  "shr32 pf w k = (if 0 \<le> k \<and> k < 32 then drop_bit (nat k) w else shr32_ov pf w k)"

definition shl64 :: "platform \<Rightarrow> 64 word \<Rightarrow> int \<Rightarrow> 64 word" where
  "shl64 pf w k = (if 0 \<le> k \<and> k < 64 then push_bit (nat k) w else shl64_ov pf w k)"

definition shr64 :: "platform \<Rightarrow> 64 word \<Rightarrow> int \<Rightarrow> 64 word" where
  "shr64 pf w k = (if 0 \<le> k \<and> k < 64 then drop_bit (nat k) w else shr64_ov pf w k)"

text \<open>
  Two platforms. \<open>masking\<close> uses the low bits of the count only, as the x86 shift
  instructions do; \<open>zeroing\<close> shifts everything out.
\<close>

definition masking :: platform where
  "masking = \<lparr>shl32_ov = (\<lambda>w k. push_bit (nat (k mod 32)) w),
              shr32_ov = (\<lambda>w k. drop_bit (nat (k mod 32)) w),
              shl64_ov = (\<lambda>w k. push_bit (nat (k mod 64)) w),
              shr64_ov = (\<lambda>w k. drop_bit (nat (k mod 64)) w)\<rparr>"

definition zeroing :: platform where
  "zeroing = \<lparr>shl32_ov = (\<lambda>w k. 0), shr32_ov = (\<lambda>w k. 0),
              shl64_ov = (\<lambda>w k. 0), shr64_ov = (\<lambda>w k. 0)\<rparr>"

text \<open>\<open>ipv4 EXTRACT(int p, int n, ipv4 str) { return str << p >> (32 - n); }\<close>\<close>

definition EXTRACT :: "platform \<Rightarrow> int \<Rightarrow> int \<Rightarrow> ipv4 \<Rightarrow> ipv4" where
  "EXTRACT pf p n s = shr32 pf (shl32 pf s p) (32 - n)"

text \<open>\<open>ipv4 REMOVE(int p, ipv4 str) { return str << p >> p; }\<close>\<close>

definition REMOVE :: "platform \<Rightarrow> int \<Rightarrow> ipv4 \<Rightarrow> ipv4" where
  "REMOVE pf p s = shr32 pf (shl32 pf s p) p"

text \<open>
  \<open>ipv6 EXTRACT(int p, int n, ipv6 str)\<close>, statement by statement: the left shift
  by \<open>p\<close> across the two halves, then the right shift by \<open>128 - n\<close>.
\<close>

definition EXTRACT6 :: "platform \<Rightarrow> int \<Rightarrow> int \<Rightarrow> ipv6 \<Rightarrow> ipv6" where
  "EXTRACT6 pf p n s =
     (let h1 = shl64 pf (hi s) p;
          hl2 = (if p > 0 \<and> p \<le> 64
                 then (h1 OR shr64 pf (lo s) (64 - p), shl64 pf (lo s) p)
                 else if p > 64 then (shl64 pf (lo s) (p - 64), 0)
                 else (h1, lo s));
          m = 128 - n;
          l3 = shr64 pf (snd hl2) m;
          hl4 = (if m > 0 \<and> m < 64
                 then (shr64 pf (fst hl2) m, l3 OR shl64 pf (fst hl2) (64 - m))
                 else if m > 64 then (0, shr64 pf (fst hl2) (m - 64))
                 else if m = 64 then (0, fst hl2)
                 else (fst hl2, l3))
      in \<lparr>hi = fst hl4, lo = snd hl4\<rparr>)"

text \<open>The 128-bit value an \<open>ipv6\<close> stands for, and the reference extraction on it.\<close>

definition ipv6_value :: "ipv6 \<Rightarrow> 128 word" where
  "ipv6_value s = push_bit 64 (ucast (hi s)) OR ucast (lo s)"

definition extract_ref :: "int \<Rightarrow> int \<Rightarrow> 128 word \<Rightarrow> 128 word" where
  "extract_ref p n w = drop_bit (nat (128 - n)) (push_bit (nat p) w)"

section \<open>Packed nodes\<close>

type_synonym node_t = "32 word"

definition SETBRANCH :: "node_t \<Rightarrow> node_t" where
  "SETBRANCH branch = push_bit 27 branch"

definition GETBRANCH :: "node_t \<Rightarrow> node_t" where
  "GETBRANCH n = drop_bit 27 n"

definition SETSKIP :: "node_t \<Rightarrow> node_t" where
  "SETSKIP skip = push_bit 20 skip"

definition GETSKIP :: "node_t \<Rightarrow> node_t" where
  "GETSKIP n = drop_bit 20 n AND 127"

definition SETADR :: "node_t \<Rightarrow> node_t" where
  "SETADR adr = adr"

definition GETADR :: "node_t \<Rightarrow> node_t" where
  "GETADR n = n AND 1048575"

section \<open>The trie object\<close>

record base_t =
  str :: ipv4
  len :: int

text \<open>
  The members of \<open>lc_trie<ipv4>\<close>. The fill factor is a \<open>double\<close> in the source; it
  is only ever multiplied by a power of two below \<open>2^31\<close> and compared with an
  \<open>int\<close>, which is exact for every finite \<open>double\<close>, so the model holds it as the
  real number it denotes.
\<close>

record lc_trie =
  trie :: "node_t list"
  base :: "base_t list"
  comp_fill_factor :: real
  comp_root_branching_factor :: int
  cached_stats :: string

text \<open>The constructor \<open>lc_trie(fill_factor = 0.5, root_branching_factor = 0)\<close>.\<close>

definition new_trie :: "real \<Rightarrow> int \<Rightarrow> lc_trie" where
  "new_trie ff rbf = \<lparr>trie = [], base = [], comp_fill_factor = ff,
                      comp_root_branching_factor = rbf, cached_stats = []\<rparr>"

subsection \<open>Vectors with checked indices\<close>

text \<open>
  While it is built the node array is a vector of \<open>2 * base.size() + 2000000\<close>
  nodes; the model keeps its size and its contents apart, so that a run on a small
  input does not carry two million list cells.
\<close>

record tree_t =
  tsize :: int
  cells :: "int \<Rightarrow> node_t"

definition tree_set :: "tree_t \<Rightarrow> int \<Rightarrow> node_t \<Rightarrow> tree_t outcome" where
  "tree_set t pos v =
     (if 0 \<le> pos \<and> pos < tsize t then Done (t\<lparr>cells := (cells t)(pos := v)\<rparr>)
      else Fault OutOfRange)"

definition base_at :: "base_t list \<Rightarrow> int \<Rightarrow> base_t outcome" where
  "base_at bv i =
     (if 0 \<le> i \<and> i < int (length bv) then Done (bv ! nat i) else Fault OutOfRange)"

definition trie_at :: "node_t list \<Rightarrow> int \<Rightarrow> node_t outcome" where
  "trie_at tv i =
     (if 0 \<le> i \<and> i < int (length tv) then Done (tv ! nat i) else Fault OutOfRange)"

text \<open>\<open>trie.resize(m)\<close> on the member vector: old nodes stay, new ones are zero.\<close>

definition tree_resize :: "node_t list \<Rightarrow> int \<Rightarrow> tree_t" where
  "tree_resize tv m =
     \<lparr>tsize = m, cells = (\<lambda>i. if 0 \<le> i \<and> i < int (length tv) then tv ! nat i else 0)\<rparr>"

definition tree_take :: "tree_t \<Rightarrow> int \<Rightarrow> node_t list" where
  "tree_take t m = map (\<lambda>i. if int i < tsize t then cells t (int i) else 0) [0..<nat m]"

text \<open>
  \<open>1 << b\<close> on \<open>int\<close>: the value is representable for \<open>b\<close> in \<open>0..30\<close>; anywhere
  else the run is abandoned.
\<close>

definition shl_int :: "int \<Rightarrow> int outcome" where
  "shl_int b = (if 0 \<le> b \<and> b < 31 then Done (2 ^ nat b) else Fault ShiftOverflow)"

section \<open>Canonicalisation: comparator, sort, duplicates\<close>

definition strcmp :: "base_t \<Rightarrow> base_t \<Rightarrow> int" where
  "strcmp a b =
     (if str a < str b then -1
      else if str a > str b then 1
      else if len a < len b then -1
      else if len a > len b then 1
      else 0)"

definition comparator :: "base_t \<Rightarrow> base_t \<Rightarrow> bool" where
  "comparator a b = (strcmp a b < 0)"

text \<open>
  \<open>std::sort(strings.begin(), strings.end(), comp)\<close> belongs to the standard
  library; \<open>comp\<close> is a \<open>comparator_t\<close>, whose \<open>operator()\<close> is
  \<open>comparator\<close> here. Its contract is a permutation ordered by \<open>comp\<close>; two entries
  that \<open>comp\<close> does not order are equal in both fields, so that permutation is unique and
  an insertion sort computes it.
\<close>

fun insert_sorted :: "base_t \<Rightarrow> base_t list \<Rightarrow> base_t list" where
  "insert_sorted x [] = [x]"
| "insert_sorted x (y # ys) = (if comparator y x then y # insert_sorted x ys else x # y # ys)"

fun std_sort :: "base_t list \<Rightarrow> base_t list" where
  "std_sort [] = []"
| "std_sort (x # xs) = insert_sorted x (std_sort xs)"

text \<open>
  The loop \<open>for(i = 1; i < strings.size(); ++i) if(comp.strcmp(strings[i-1],
  strings[i]) != 0) base.push_back(strings[i]);\<close> with \<open>prev = strings[i-1]\<close>.
\<close>

fun push_distinct :: "base_t \<Rightarrow> base_t list \<Rightarrow> base_t list \<Rightarrow> base_t list" where
  "push_distinct prev [] bv = bv"
| "push_distinct prev (s # ss) bv =
     push_distinct s ss (if strcmp prev s \<noteq> 0 then bv @ [s] else bv)"

section \<open>The trie compiler\<close>

subsection \<open>compute\_branch\<close>

text \<open>
  \<open>i = prefix; while(EXTRACT(i, 1, low) == EXTRACT(i, 1, high)) ++i;\<close>
  The counter is an unbounded integer here; the source's \<open>int\<close> passes \<open>2^31\<close> only
  in a run in which the loop has not found a differing bit in any of the 32 positions.
\<close>

primrec newprefix_loop :: "platform \<Rightarrow> nat \<Rightarrow> ipv4 \<Rightarrow> ipv4 \<Rightarrow> int \<Rightarrow> int outcome" where
  "newprefix_loop pf 0 low high i = NoFuel"
| "newprefix_loop pf (Suc fuel) low high i =
     (if EXTRACT pf i 1 low = EXTRACT pf i 1 high
      then newprefix_loop pf fuel low high (i + 1)
      else Done i)"

text \<open>
  \<open>while(i < first+n && EXTRACT(*newprefix, b, base[i].str) == pat) { ++i; patfound
  = true; }\<close> with \<open>stop = first+n\<close>; it returns the new \<open>i\<close> and \<open>patfound\<close>.
\<close>

primrec pat_run ::
  "platform \<Rightarrow> nat \<Rightarrow> base_t list \<Rightarrow> int \<Rightarrow> int \<Rightarrow> 32 word \<Rightarrow> int \<Rightarrow> int \<Rightarrow> bool
    \<Rightarrow> (int \<times> bool) outcome" where
  "pat_run pf 0 bv newprefix b pat stop i patfound = NoFuel"
| "pat_run pf (Suc fuel) bv newprefix b pat stop i patfound =
     (if i < stop then
        obind (base_at bv i) (\<lambda>e.
          if EXTRACT pf newprefix b (str e) = pat
          then pat_run pf fuel bv newprefix b pat stop (i + 1) True
          else Done (i, patfound))
      else Done (i, patfound))"

text \<open>
  \<open>while(pat < (uint32_t)(1<<b)) { patfound = false; ...; if(patfound) ++count;
  ++pat; }\<close> with \<open>patlim = (uint32_t)(1<<b)\<close>; it returns \<open>count\<close>. The inner
  loop gets the budget \<open>inner\<close>.
\<close>

primrec pat_loop ::
  "platform \<Rightarrow> nat \<Rightarrow> nat \<Rightarrow> base_t list \<Rightarrow> int \<Rightarrow> int \<Rightarrow> 32 word \<Rightarrow> int \<Rightarrow> int \<Rightarrow> 32 word
    \<Rightarrow> int \<Rightarrow> int outcome" where
  "pat_loop pf 0 inner bv newprefix b patlim stop i pat cnt = NoFuel"
| "pat_loop pf (Suc fuel) inner bv newprefix b patlim stop i pat cnt =
     (if pat < patlim then
        obind (pat_run pf inner bv newprefix b pat stop i False) (\<lambda>r.
          pat_loop pf fuel inner bv newprefix b patlim stop (fst r) (pat + 1)
            (if snd r then cnt + 1 else cnt))
      else Done cnt)"

text \<open>
  \<open>b = 1; do { ++b; if(n < comp_fill_factor * (1<<b) || (uint32_t)(*newprefix+b) >
  adrsize) break; ... } while(count >= comp_fill_factor*(1<<b));\<close> It is entered
  with the current \<open>b\<close> and returns the \<open>b\<close> at which the loop is left. The loops
  inside get the budget \<open>inner\<close>.
\<close>

primrec branch_loop ::
  "platform \<Rightarrow> nat \<Rightarrow> nat \<Rightarrow> real \<Rightarrow> base_t list \<Rightarrow> int \<Rightarrow> int \<Rightarrow> int \<Rightarrow> int \<Rightarrow> int outcome" where
  "branch_loop pf 0 inner ff bv newprefix first n b = NoFuel"
| "branch_loop pf (Suc fuel) inner ff bv newprefix first n b =
     obind (shl_int (b + 1)) (\<lambda>pw.
       if real_of_int n < ff * real_of_int pw \<or> (newprefix + (b + 1)) mod 2 ^ 32 > 32
       then Done (b + 1)
       else obind (pat_loop pf inner inner bv newprefix (b + 1) (word_of_int pw) (first + n)
                     first 0 0)
         (\<lambda>cnt. if real_of_int cnt \<ge> ff * real_of_int pw
                 then branch_loop pf fuel inner ff bv newprefix first n (b + 1)
                 else Done (b + 1)))"

text \<open>
  \<open>compute_branch(base, prefix, first, n, &branch, &newprefix)\<close> returns the pair
  \<open>(branch, newprefix)\<close>; \<open>ff\<close> and \<open>rbf\<close> are the members \<open>comp_fill_factor\<close>
  and \<open>comp_root_branching_factor\<close> it reads. In the source \<open>high\<close> is taken from
  \<open>base[first]\<close> and \<open>low\<close> from \<open>base[first+n-1]\<close>.
\<close>

definition compute_branch ::
  "platform \<Rightarrow> nat \<Rightarrow> real \<Rightarrow> int \<Rightarrow> base_t list \<Rightarrow> int \<Rightarrow> int \<Rightarrow> int \<Rightarrow> (int \<times> int) outcome" where
  "compute_branch pf fuel ff rbf bv prefix first n =
     obind (base_at bv first) (\<lambda>e1.
     obind (base_at bv (first + n - 1)) (\<lambda>e2.
     obind (newprefix_loop pf fuel (REMOVE pf prefix (str e2)) (REMOVE pf prefix (str e1)) prefix)
       (\<lambda>newprefix.
         if n = 2 then Done (1, newprefix)
         else if rbf > 0 \<and> prefix = 0 \<and> first = 0 then Done (rbf, newprefix)
         else obind (branch_loop pf fuel fuel ff bv newprefix first n 1) (\<lambda>b.
                Done (b - 1, newprefix)))))"

subsection \<open>build\_recursive\<close>

text \<open>
  \<open>while(p+k < first+n && EXTRACT(newprefix, branch, base[p+k].str) == bitpat)
  ++k;\<close> with \<open>stop = first+n\<close>; it returns \<open>k\<close>.
\<close>

primrec run_length ::
  "platform \<Rightarrow> nat \<Rightarrow> base_t list \<Rightarrow> int \<Rightarrow> int \<Rightarrow> 32 word \<Rightarrow> int \<Rightarrow> int \<Rightarrow> int \<Rightarrow> int outcome" where
  "run_length pf 0 bv newprefix branch bitpat stop p k = NoFuel"
| "run_length pf (Suc fuel) bv newprefix branch bitpat stop p k =
     (if p + k < stop then
        obind (base_at bv (p + k)) (\<lambda>e.
          if EXTRACT pf newprefix branch (str e) = bitpat
          then run_length pf fuel bv newprefix branch bitpat stop p (k + 1)
          else Done k)
      else Done k)"

text \<open>The word written for an internal node: \<open>SETBRANCH(branch) | SETSKIP(newprefix - prefix) | SETADR(adr)\<close>.\<close>

definition internal_node :: "int \<Rightarrow> int \<Rightarrow> int \<Rightarrow> node_t" where
  "internal_node branch skip adr =
     SETBRANCH (word_of_int branch) OR SETSKIP (word_of_int skip) OR SETADR (word_of_int adr)"

text \<open>
  The two loops of \<open>build_recursive\<close> call \<open>build_recursive\<close> itself. In the model
  they take that callee as the argument \<open>br\<close>, a function of \<open>(tree, prefix, first, n,
  pos, *nextfree)\<close> that returns the tree and \<open>*nextfree\<close> as the call leaves them;
  \<open>build_recursive\<close> below passes itself, with the rest of its budget.

  \<open>fan_out\<close> is \<open>for(i = bitpat; i < bitpat + (1<<bits); ++i) build_recursive(tree,
  base, newprefix+branch, p, 1, adr+i, nextfree);\<close> entered with the current \<open>i\<close>;
  \<open>ilim\<close> is its bound, computed in \<open>uint32_t\<close>.
  Indices are sums of an \<open>int\<close> and a 32-bit pattern; both stay far below \<open>2^31\<close> in
  any run that does not fault, so the sum is taken in the integers.
\<close>

type_synonym callee = "tree_t \<Rightarrow> int \<Rightarrow> int \<Rightarrow> int \<Rightarrow> int \<Rightarrow> int \<Rightarrow> (tree_t \<times> int) outcome"

primrec fan_out ::
  "callee \<Rightarrow> nat \<Rightarrow> tree_t \<Rightarrow> int \<Rightarrow> int \<Rightarrow> int \<Rightarrow> 32 word \<Rightarrow> 32 word \<Rightarrow> int
    \<Rightarrow> (tree_t \<times> int) outcome" where
  "fan_out br 0 tree prefix p adr ilim i nextfree = NoFuel"
| "fan_out br (Suc fuel) tree prefix p adr ilim i nextfree =
     (if i < ilim then
        obind (br tree prefix p 1 (adr + uint i) nextfree) (\<lambda>r.
          fan_out br fuel (fst r) prefix p adr ilim (i + 1) (snd r))
      else Done (tree, nextfree))"

text \<open>
  \<open>subtrees\<close> is the loop \<open>for(bitpat = 0; bitpat < (uint32_t)(1<<branch); ++bitpat)\<close>,
  entered with the current \<open>bitpat\<close>, \<open>p\<close> and \<open>*nextfree\<close>; \<open>patlim\<close> is
  \<open>(uint32_t)(1<<branch)\<close>. \<open>base[p].len\<close> is read only when \<open>k == 1\<close>. The loops
  inside get the budget \<open>inner\<close>.
\<close>

primrec subtrees ::
  "platform \<Rightarrow> callee \<Rightarrow> nat \<Rightarrow> nat \<Rightarrow> tree_t \<Rightarrow> base_t list \<Rightarrow> int \<Rightarrow> int \<Rightarrow> int \<Rightarrow> int \<Rightarrow> int
    \<Rightarrow> 32 word \<Rightarrow> 32 word \<Rightarrow> int \<Rightarrow> int \<Rightarrow> (tree_t \<times> int) outcome" where
  "subtrees pf br 0 inner tree bv first n newprefix branch adr patlim bitpat p nextfree = NoFuel"
| "subtrees pf br (Suc fuel) inner tree bv first n newprefix branch adr patlim bitpat p nextfree =
     (if bitpat < patlim then
        obind (run_length pf inner bv newprefix branch bitpat (first + n) p 0) (\<lambda>k.
        obind
          (if k = 0 then
             (if p = first + n
              then br tree (newprefix + branch) (p - 1) 1 (adr + uint bitpat) nextfree
              else br tree (newprefix + branch) p 1 (adr + uint bitpat) nextfree)
           else if k = 1 then
             obind (base_at bv p) (\<lambda>e.
               if len e - newprefix < branch then
                 obind (shl_int (branch + newprefix - len e)) (\<lambda>pw.
                   fan_out br inner tree (newprefix + branch) p adr
                     (bitpat + word_of_int pw) bitpat nextfree)
               else br tree (newprefix + branch) p k (adr + uint bitpat) nextfree)
           else br tree (newprefix + branch) p k (adr + uint bitpat) nextfree)
          (\<lambda>r. subtrees pf br fuel inner (fst r) bv first n newprefix branch adr patlim
                  (bitpat + 1) (p + k) (snd r)))
      else Done (tree, nextfree))"

text \<open>
  \<open>build_recursive(tree, base, prefix, first, n, pos, nextfree)\<close> returns the tree
  and \<open>*nextfree\<close> as it leaves them.
\<close>

primrec build_recursive ::
  "platform \<Rightarrow> nat \<Rightarrow> real \<Rightarrow> int \<Rightarrow> base_t list \<Rightarrow> callee" where
  "build_recursive pf 0 ff rbf bv tree prefix first n pos nextfree = NoFuel"
| "build_recursive pf (Suc fuel) ff rbf bv tree prefix first n pos nextfree =
     (if n = 1 then
        obind (tree_set tree pos (word_of_int first)) (\<lambda>t. Done (t, nextfree))
      else
        obind (compute_branch pf fuel ff rbf bv prefix first n) (\<lambda>bn.
        obind (tree_set tree pos (internal_node (fst bn) (snd bn - prefix) nextfree)) (\<lambda>t.
        obind (shl_int (fst bn)) (\<lambda>pw.
          subtrees pf (build_recursive pf fuel ff rbf bv) fuel fuel t bv first n (snd bn) (fst bn)
            nextfree (word_of_int pw) 0 first (nextfree + pw)))))"

subsection \<open>build\<close>

text \<open>
  \<open>bool build(std::vector<input_string_t> &strings)\<close> returns its result, the trie
  object and the caller's vector as it leaves them. \<open>strings[0]\<close> is read without a
  check of the size; on an empty vector that read is outside the vector.
\<close>

definition build ::
  "platform \<Rightarrow> nat \<Rightarrow> lc_trie \<Rightarrow> base_t list \<Rightarrow> (bool \<times> lc_trie \<times> base_t list) outcome" where
  "build pf fuel t strings =
     (if length strings > 2 ^ 19 then Done (False, t, strings)
      else
        (let strings' = std_sort strings in
         case strings' of
           [] \<Rightarrow> Fault OutOfRange
         | s0 # ss \<Rightarrow>
             (let bv = push_distinct s0 ss (base t @ [s0]);
                  tree = tree_resize (trie t) (2 * int (length bv) + 2000000)
              in obind (build_recursive pf fuel (comp_fill_factor t)
                          (comp_root_branching_factor t) bv tree 0 0 (int (length bv)) 0 1)
                   (\<lambda>r.
                      if snd r < 0 then Fault BadAlloc
                      else Done (True,
                                 t\<lparr>trie := tree_take (fst r) (snd r), base := bv,
                                   cached_stats := []\<rparr>,
                                 strings')))))"

section \<open>Search\<close>

text \<open>
  \<open>while(branch != 0) { node = trie[adr + EXTRACT(pos, branch, ip)]; pos += branch +
  GETSKIP(node); branch = GETBRANCH(node); adr = GETADR(node); }\<close> returns the
  \<open>adr\<close> of the leaf at which it stops.
\<close>

primrec descend :: "platform \<Rightarrow> nat \<Rightarrow> node_t list \<Rightarrow> ipv4 \<Rightarrow> int \<Rightarrow> int \<Rightarrow> int \<Rightarrow> int outcome" where
  "descend pf 0 tv ip pos branch adr = NoFuel"
| "descend pf (Suc fuel) tv ip pos branch adr =
     (if branch \<noteq> 0 then
        obind (trie_at tv (adr + uint (EXTRACT pf pos branch ip))) (\<lambda>node.
          descend pf fuel tv ip (pos + (branch + uint (GETSKIP node)))
            (uint (GETBRANCH node)) (uint (GETADR node)))
      else Done adr)"

definition search :: "platform \<Rightarrow> nat \<Rightarrow> lc_trie \<Rightarrow> ipv4 \<Rightarrow> bool outcome" where
  "search pf fuel t ip =
     (if trie t = [] then Done False
      else
        obind (trie_at (trie t) 0) (\<lambda>node.
        obind (descend pf fuel (trie t) ip (uint (GETSKIP node)) (uint (GETBRANCH node))
                 (uint (GETADR node))) (\<lambda>adr.
        obind (base_at (base t) adr) (\<lambda>e.
          Done (EXTRACT pf 0 (len e) (str e XOR ip) = 0)))))"

section \<open>Persistence\<close>

text \<open>
  \<open>load\<close> opens the file, wraps it in a gzip decompressor and a boost binary archive
  and runs \<open>ia >> *this\<close>, that is \<open>serialize\<close>: \<open>ar & trie; ar & base; ar &
  comp_fill_factor; ar & comp_root_branching_factor; ar & cached_stats;\<close> each
  written straight into the member. The archive library is not part of the
  repository; the model sees a file as what it makes the five reads do. A read
  yields the next item of the stream when that item has the member's type, and
  throws otherwise (a truncated, corrupted or foreign stream); nothing in \<open>load\<close>
  catches the exception, so it leaves \<open>load\<close> with the members read so far already
  replaced.
\<close>

datatype item =
    Nodes "node_t list"
  | Entries "base_t list"
  | Double real
  | Integer int
  | Text string

text \<open>
  \<open>opens\<close>: \<open>ifs.fail()\<close> is false after the stream is constructed; \<open>items\<close>:
  what the archive yields, in order; \<open>failed_after\<close>: \<open>ifs.fail()\<close> once
  \<open>ia >> *this\<close> has returned.
\<close>

record stored =
  opens :: bool
  items :: "item list"
  failed_after :: bool

datatype load_result = Returned bool | Threw

definition load :: "stored \<Rightarrow> lc_trie \<Rightarrow> load_result \<times> lc_trie" where
  "load f t =
     (if \<not> opens f then (Returned False, t)
      else case items f of
        Nodes tv # r1 \<Rightarrow>
          (let t1 = t\<lparr>trie := tv\<rparr> in
           case r1 of
             Entries bv # r2 \<Rightarrow>
               (let t2 = t1\<lparr>base := bv\<rparr> in
                case r2 of
                  Double d # r3 \<Rightarrow>
                    (let t3 = t2\<lparr>comp_fill_factor := d\<rparr> in
                     case r3 of
                       Integer k # r4 \<Rightarrow>
                         (let t4 = t3\<lparr>comp_root_branching_factor := k\<rparr> in
                          case r4 of
                            Text s # r5 \<Rightarrow>
                              (Returned (\<not> failed_after f), t4\<lparr>cached_stats := s\<rparr>)
                          | _ \<Rightarrow> (Threw, t4))
                     | _ \<Rightarrow> (Threw, t3))
                | _ \<Rightarrow> (Threw, t2))
           | _ \<Rightarrow> (Threw, t1))
      | _ \<Rightarrow> (Threw, t))"

section \<open>Parsing addresses and compiling a prefix file\<close>

text \<open>
  \<open>strtoip<ipv4>\<close> calls \<open>inet_pton(AF_INET, str, buf)\<close> of the C library, which
  returns 1 and fills \<open>buf\<close> when the text is a dotted-quad address, returns 0 and
  leaves \<open>buf\<close> alone when it is not, and returns -1 only for an address family it
  does not know. The model takes the library function as the parameter \<open>pton\<close>
  (\<open>Some\<close> the four bytes for a valid text, \<open>None\<close> otherwise) and the bytes that
  the uninitialised \<open>buf\<close> holds as \<open>junk\<close>.
\<close>

type_synonym bytes4 = "8 word \<times> 8 word \<times> 8 word \<times> 8 word"

definition inet_pton :: "(string \<Rightarrow> bytes4 option) \<Rightarrow> bytes4 \<Rightarrow> string \<Rightarrow> int \<times> bytes4" where
  "inet_pton pton junk s = (case pton s of Some b \<Rightarrow> (1, b) | None \<Rightarrow> (0, junk))"

definition strtoip :: "(string \<Rightarrow> bytes4 option) \<Rightarrow> bytes4 \<Rightarrow> string \<Rightarrow> ipv4 option" where
  "strtoip pton junk s =
     (case inet_pton pton junk s of
        (r, (b0, b1, b2, b3)) \<Rightarrow>
          if r < 0 then None
          else Some (ucast b3 OR push_bit 8 (ucast b2) OR push_bit 16 (ucast b1)
                     OR push_bit 24 (ucast b0)))"

text \<open>
  \<open>compile_lc_trie\<close>: the file is the list of the words \<open>fscanf(in, "%256s", line)\<close>
  reads (\<open>None\<close> when \<open>fopen\<close> fails); \<open>atoi\<close> is the C library's. \<open>parse_line\<close> is
  the body of the loop up to the call of \<open>strtoip\<close>: the text before the first
  \<open>'/'\<close> is the address, the text after it the prefix length, 32 when there is none.
  Every call of \<open>strtoip\<close> has a \<open>buf\<close> of its own: in \<open>read_lines\<close> the parameter
  \<open>junk\<close> gives the bytes that the buffer of the call number \<open>k\<close> holds, \<open>k\<close> being
  the number of lines read before it, which is the size of \<open>input_vector\<close>.
\<close>

definition parse_line ::
  "(string \<Rightarrow> bytes4 option) \<Rightarrow> bytes4 \<Rightarrow> (string \<Rightarrow> int) \<Rightarrow> string \<Rightarrow> base_t option" where
  "parse_line pton junk atoi line =
     (let addr = takeWhile (\<lambda>c. c \<noteq> CHR ''/'') line;
          rest = dropWhile (\<lambda>c. c \<noteq> CHR ''/'') line;
          cidr = (if rest = [] then 32 else atoi (tl rest))
      in case strtoip pton junk addr of
           None \<Rightarrow> None
         | Some ip \<Rightarrow> Some \<lparr>str = ip, len = cidr\<rparr>)"

fun read_lines ::
  "(string \<Rightarrow> bytes4 option) \<Rightarrow> (nat \<Rightarrow> bytes4) \<Rightarrow> (string \<Rightarrow> int) \<Rightarrow> string list \<Rightarrow> base_t list
    \<Rightarrow> base_t list option" where
  "read_lines pton junk atoi [] input_vector = Some input_vector"
| "read_lines pton junk atoi (line # rest) input_vector =
     (case parse_line pton (junk (length input_vector)) atoi line of
        None \<Rightarrow> None
      | Some e \<Rightarrow> read_lines pton junk atoi rest (input_vector @ [e]))"

definition compile_lc_trie ::
  "platform \<Rightarrow> nat \<Rightarrow> (string \<Rightarrow> bytes4 option) \<Rightarrow> (nat \<Rightarrow> bytes4) \<Rightarrow> (string \<Rightarrow> int)
    \<Rightarrow> string list option \<Rightarrow> lc_trie \<Rightarrow> (bool \<times> lc_trie) outcome" where
  "compile_lc_trie pf fuel pton junk atoi fl t =
     (case fl of
        None \<Rightarrow> Done (False, t)
      | Some ls \<Rightarrow>
          (case read_lines pton junk atoi ls [] of
             None \<Rightarrow> Done (False, t)
           | Some input_vector \<Rightarrow>
               obind (build pf fuel t input_vector) (\<lambda>r. Done (fst r, fst (snd r)))))"

section \<open>Evaluating the model\<close>

lemma obind_simps [simp]:
  "obind NoFuel f = NoFuel" "obind (Fault e) f = Fault e" "obind (Done v) f = f v"
  by (simp_all add: obind_def)

lemma obind_weak_cong: "m = m' \<Longrightarrow> obind m f = obind m' f"
  by simp

lemma obind_Done_iff: "obind m f = Done r \<longleftrightarrow> (\<exists>v. m = Done v \<and> f v = Done r)"
  by (cases m) simp_all

lemmas fuel_numeral =
  newprefix_loop.simps(2)[where fuel="pred_numeral k", folded numeral_eq_Suc]
  pat_run.simps(2)[where fuel="pred_numeral k", folded numeral_eq_Suc]
  pat_loop.simps(2)[where fuel="pred_numeral k", folded numeral_eq_Suc]
  branch_loop.simps(2)[where fuel="pred_numeral k", folded numeral_eq_Suc]
  run_length.simps(2)[where fuel="pred_numeral k", folded numeral_eq_Suc]
  fan_out.simps(2)[where fuel="pred_numeral k", folded numeral_eq_Suc]
  subtrees.simps(2)[where fuel="pred_numeral k", folded numeral_eq_Suc]
  build_recursive.simps(2)[where fuel="pred_numeral k", folded numeral_eq_Suc]
  descend.simps(2)[where fuel="pred_numeral k", folded numeral_eq_Suc]
  for k

lemmas eval_defs = build_def search_def compute_branch_def tree_set_def base_at_def trie_at_def
  tree_resize_def tree_take_def shl_int_def strcmp_def comparator_def internal_node_def
  SETBRANCH_def GETBRANCH_def SETSKIP_def GETSKIP_def SETADR_def GETADR_def
  EXTRACT_def REMOVE_def shl32_def shr32_def masking_def zeroing_def new_trie_def
  upt_conv_Cons Let_def

section \<open>Canonicalisation\<close>

lemma strcmp_refl [simp]: "strcmp a a = 0"
  by (simp add: strcmp_def)

lemma strcmp_zero_iff: "strcmp a b = 0 \<longleftrightarrow> a = b"
  by (cases a, cases b) (auto simp: strcmp_def)

lemma insert_sorted_head:
  "\<forall>y \<in> set ys. \<not> comparator y x \<Longrightarrow> insert_sorted x ys = x # ys"
  by (cases ys) simp_all

lemma std_sort_replicate: "std_sort (replicate m e) = replicate m e"
proof (induction m)
  case 0
  show ?case by simp
next
  case (Suc m)
  have "\<forall>y \<in> set (replicate m e). \<not> comparator y e"
    by (simp add: comparator_def)
  then show ?case
    using Suc by (simp add: insert_sorted_head)
qed

lemma push_distinct_replicate: "push_distinct e (replicate m e) bv = bv"
  by (induction m) simp_all

lemma push_distinct_remdups_adj:
  "push_distinct s0 ss (bv @ [s0]) = bv @ remdups_adj (s0 # ss)"
proof (induction ss arbitrary: s0 bv)
  case Nil
  show ?case by simp
next
  case (Cons s ss)
  show ?case
  proof (cases "s0 = s")
    case True
    then show ?thesis using Cons[of s bv] by simp
  next
    case False
    then have "strcmp s0 s \<noteq> 0" by (simp add: strcmp_zero_iff)
    then show ?thesis using Cons[of s "bv @ [s0]"] False by simp
  qed
qed

section \<open>The capacity check and inputs that build cannot finish\<close>


lemma build_result_True:
  "length strings \<le> 2 ^ 19 \<Longrightarrow> build pf fuel t strings = Done (r, t', s') \<Longrightarrow> r"
  by (auto simp: build_def Let_def obind_Done_iff split: list.splits if_splits)

lemma newprefix_loop_equal: "newprefix_loop pf fuel w w i = NoFuel"
  by (induction fuel arbitrary: i) simp_all


lemma build_replicate:
  assumes "m < 2 ^ 19"
  shows "build pf (Suc fuel) (new_trie ff rbf) (e # replicate m e) =
     Done (True, \<lparr>trie = [0], base = [e], comp_fill_factor = ff,
                  comp_root_branching_factor = rbf, cached_stats = []\<rparr>, e # replicate m e)"
proof -
  have s: "std_sort (e # replicate m e) = e # replicate m e"
    using std_sort_replicate[of "Suc m" e] by simp
  show ?thesis
    unfolding build_def using assms
    by (simp add: s push_distinct_replicate new_trie_def tree_resize_def tree_set_def
        tree_take_def del: std_sort.simps)
qed


section \<open>Claims about build\<close>


text \<open>
  C10. \<open>build\<close> has no check for an empty input: whatever the trie and the platform,
  the read of \<open>strings[0]\<close> is outside the vector.
\<close>

theorem build_empty_input_faults: "build pf fuel t [] = Fault OutOfRange"
  by (simp add: build_def)

text \<open>
  C4. \<open>build\<close> appends to \<open>base\<close> and never clears it. A trie that holds the one
  entry \<open>1/32\<close> and is rebuilt from the one entry \<open>2/32\<close> ends with both entries
  in its base vector, and with a node array compiled over both.
\<close>

theorem rebuild_appends_to_base:
  "build masking 40
     \<lparr>trie = [0], base = [\<lparr>str = 1, len = 32\<rparr>], comp_fill_factor = 1/2,
      comp_root_branching_factor = 0, cached_stats = []\<rparr>
     [\<lparr>str = 2, len = 32\<rparr>]
   = Done (True,
       \<lparr>trie = [165675009, 0, 1], base = [\<lparr>str = 1, len = 32\<rparr>, \<lparr>str = 2, len = 32\<rparr>],
        comp_fill_factor = 1/2, comp_root_branching_factor = 0, cached_stats = []\<rparr>,
       [\<lparr>str = 2, len = 32\<rparr>])"
  by (simp add: eval_defs fuel_numeral cong: obind_weak_cong)

text \<open>In general the base vector after a build is the old one followed by the new entries.\<close>

lemma build_base:
  assumes "build pf fuel t strings = Done (True, t', s')"
  shows "base t' = base t @ remdups_adj (std_sort strings) \<and> s' = std_sort strings"
proof (cases "std_sort strings")
  case Nil
  then show ?thesis using assms by (simp add: build_def split: if_splits)
next
  case (Cons s0 ss)
  then show ?thesis using assms
    by (auto simp: build_def Let_def obind_Done_iff push_distinct_remdups_adj split: if_splits)
qed

section \<open>Claims about load\<close>

text \<open>
  C5. \<open>load\<close> is not all-or-nothing, and it does not report every failure by
  returning false. When the file cannot be opened it returns false and the trie is
  untouched. Once the file is open the members are overwritten one by one as they
  are read: a stream that stops or goes wrong before the fifth member makes \<open>load\<close>
  throw, with exactly the members read until then replaced; a stream that yields
  all five members replaces them all, and \<open>load\<close> returns \<open>!ifs.fail()\<close>.
\<close>

theorem load_stream_failure:
  "(\<not> opens f \<longrightarrow> load f t = (Returned False, t)) \<and>
   (opens f \<longrightarrow>
      ((\<forall>tv r. items f \<noteq> Nodes tv # r) \<longrightarrow> load f t = (Threw, t)) \<and>
      (\<forall>tv r1. items f = Nodes tv # r1 \<and> (\<forall>bv r. r1 \<noteq> Entries bv # r)
         \<longrightarrow> load f t = (Threw, t\<lparr>trie := tv\<rparr>)) \<and>
      (\<forall>tv bv r2. items f = Nodes tv # Entries bv # r2 \<and> (\<forall>d r. r2 \<noteq> Double d # r)
         \<longrightarrow> load f t = (Threw, t\<lparr>trie := tv, base := bv\<rparr>)) \<and>
      (\<forall>tv bv d r3. items f = Nodes tv # Entries bv # Double d # r3 \<and> (\<forall>k r. r3 \<noteq> Integer k # r)
         \<longrightarrow> load f t = (Threw, t\<lparr>trie := tv, base := bv, comp_fill_factor := d\<rparr>)) \<and>
      (\<forall>tv bv d k r4. items f = Nodes tv # Entries bv # Double d # Integer k # r4 \<and>
           (\<forall>s r. r4 \<noteq> Text s # r)
         \<longrightarrow> load f t = (Threw, t\<lparr>trie := tv, base := bv, comp_fill_factor := d,
                                  comp_root_branching_factor := k\<rparr>)) \<and>
      (\<forall>tv bv d k s r5. items f = Nodes tv # Entries bv # Double d # Integer k # Text s # r5
         \<longrightarrow> load f t = (Returned (\<not> failed_after f),
                          \<lparr>trie = tv, base = bv, comp_fill_factor = d,
                           comp_root_branching_factor = k, cached_stats = s\<rparr>)))"
  by (cases t) (auto simp: load_def Let_def split: list.splits item.splits)

theorem load_stream_failure_witness:
  "load \<lparr>opens = False, items = [], failed_after = True\<rparr> (new_trie (1/2) 0)
     = (Returned False, new_trie (1/2) 0) \<and>
   load \<lparr>opens = True, items = [], failed_after = True\<rparr> (new_trie (1/2) 0)
     = (Threw, new_trie (1/2) 0) \<and>
   load \<lparr>opens = True, items = [Nodes [7]], failed_after = True\<rparr> (new_trie (1/2) 0)
     = (Threw, \<lparr>trie = [7], base = [], comp_fill_factor = 1/2,
                comp_root_branching_factor = 0, cached_stats = []\<rparr>) \<and>
   load \<lparr>opens = True, items = [Nodes [7], Entries [\<lparr>str = 1, len = 32\<rparr>], Text ''x''],
         failed_after = True\<rparr> (new_trie (1/2) 0)
     = (Threw, \<lparr>trie = [7], base = [\<lparr>str = 1, len = 32\<rparr>], comp_fill_factor = 1/2,
                comp_root_branching_factor = 0, cached_stats = []\<rparr>) \<and>
   load \<lparr>opens = True, items = [Nodes [7], Entries [\<lparr>str = 1, len = 32\<rparr>], Double (1/4)],
         failed_after = True\<rparr> (new_trie (1/2) 0)
     = (Threw, \<lparr>trie = [7], base = [\<lparr>str = 1, len = 32\<rparr>], comp_fill_factor = 1/4,
                comp_root_branching_factor = 0, cached_stats = []\<rparr>) \<and>
   load \<lparr>opens = True, items = [Nodes [7], Entries [\<lparr>str = 1, len = 32\<rparr>], Double (1/4), Integer 5],
         failed_after = True\<rparr> (new_trie (1/2) 0)
     = (Threw, \<lparr>trie = [7], base = [\<lparr>str = 1, len = 32\<rparr>], comp_fill_factor = 1/4,
                comp_root_branching_factor = 5, cached_stats = []\<rparr>) \<and>
   load \<lparr>opens = True, items = [Nodes [7], Entries [\<lparr>str = 1, len = 32\<rparr>], Double (1/4), Integer 5, Text ''s''],
         failed_after = True\<rparr> (new_trie (1/2) 0)
     = (Returned False, \<lparr>trie = [7], base = [\<lparr>str = 1, len = 32\<rparr>], comp_fill_factor = 1/4,
                comp_root_branching_factor = 5, cached_stats = ''s''\<rparr>)"
  using load_stream_failure[of "\<lparr>opens = False, items = [], failed_after = True\<rparr>" "new_trie (1/2) 0"]
    load_stream_failure[of "\<lparr>opens = True, items = [], failed_after = True\<rparr>" "new_trie (1/2) 0"]
    load_stream_failure[of "\<lparr>opens = True, items = [Nodes [7]], failed_after = True\<rparr>" "new_trie (1/2) 0"]
    load_stream_failure[of "\<lparr>opens = True, items = [Nodes [7], Entries [\<lparr>str = 1, len = 32\<rparr>], Text ''x''],
         failed_after = True\<rparr>" "new_trie (1/2) 0"]
    load_stream_failure[of "\<lparr>opens = True, items = [Nodes [7], Entries [\<lparr>str = 1, len = 32\<rparr>], Double (1/4)],
         failed_after = True\<rparr>" "new_trie (1/2) 0"]
    load_stream_failure[of "\<lparr>opens = True, items = [Nodes [7], Entries [\<lparr>str = 1, len = 32\<rparr>], Double (1/4), Integer 5],
         failed_after = True\<rparr>" "new_trie (1/2) 0"]
    load_stream_failure[of "\<lparr>opens = True, items = [Nodes [7], Entries [\<lparr>str = 1, len = 32\<rparr>], Double (1/4), Integer 5, Text ''s''],
         failed_after = True\<rparr>" "new_trie (1/2) 0"]
  by (simp add: new_trie_def)

text \<open>
  C8, as amended. After a successful \<open>load\<close> the cached statistics string is the
  string stored in the stream, and the whole trie is what the stream holds, whatever
  the trie was before the call: nothing of the earlier cache survives.
\<close>

theorem load_cached_stats_from_stream:
  "load f t = (Returned True, t') \<longrightarrow>
     (\<exists>tv bv d k r. items f = Nodes tv # Entries bv # Double d # Integer k # Text (cached_stats t') # r) \<and>
     load f u = (Returned True, t')"
  by (cases t, cases u) (auto simp: load_def Let_def split: list.splits item.splits if_splits)

theorem load_cached_stats_from_stream_witness:
  "load \<lparr>opens = True, items = [Nodes [0], Entries [\<lparr>str = 1, len = 32\<rparr>], Double (1/4), Integer 0, Text ''old''],
          failed_after = False\<rparr> (new_trie (1/2) 0)
     = (Returned True, \<lparr>trie = [0], base = [\<lparr>str = 1, len = 32\<rparr>], comp_fill_factor = 1/4,
        comp_root_branching_factor = 0, cached_stats = ''old''\<rparr>) \<and>
   load \<lparr>opens = True, items = [Nodes [0], Entries [\<lparr>str = 1, len = 32\<rparr>], Double (1/4), Integer 0, Text ''old''],
          failed_after = False\<rparr> (new_trie 1 5)
     = (Returned True, \<lparr>trie = [0], base = [\<lparr>str = 1, len = 32\<rparr>], comp_fill_factor = 1/4,
        comp_root_branching_factor = 0, cached_stats = ''old''\<rparr>)"
proof -
  let ?f = "\<lparr>opens = True, items = [Nodes [0], Entries [\<lparr>str = 1, len = 32\<rparr>], Double (1/4), Integer 0, Text ''old''],
          failed_after = False\<rparr>"
  let ?t' = "\<lparr>trie = [0], base = [\<lparr>str = 1, len = 32\<rparr>], comp_fill_factor = 1/4,
        comp_root_branching_factor = 0, cached_stats = ''old''\<rparr>"
  have a: "load ?f (new_trie (1/2) 0) = (Returned True, ?t')"
    by (simp add: load_def new_trie_def)
  have "load ?f (new_trie 1 5) = (Returned True, ?t')"
    using load_cached_stats_from_stream[of ?f "new_trie (1/2) 0" ?t' "new_trie 1 5"] a by blast
  then show ?thesis using a by blast
qed

text \<open>
  C8 as stated fails: the string is not cleared; a stream saved with a cached string
  loads with that string.
\<close>

theorem load_keeps_stored_stats:
  "load \<lparr>opens = True, items = [Nodes [0], Entries [\<lparr>str = 1, len = 32\<rparr>], Double (1/4), Integer 0, Text ''old''],
          failed_after = False\<rparr> (new_trie (1/2) 0)
     = (Returned True, \<lparr>trie = [0], base = [\<lparr>str = 1, len = 32\<rparr>], comp_fill_factor = 1/4,
        comp_root_branching_factor = 0, cached_stats = ''old''\<rparr>) \<and>
   cached_stats \<lparr>trie = [0], base = [\<lparr>str = 1, len = 32\<rparr>], comp_fill_factor = 1/4,
        comp_root_branching_factor = 0, cached_stats = ''old''\<rparr> \<noteq> []"
  by (simp add: load_def new_trie_def)

section \<open>Claims about parsing\<close>

text \<open>
  \<open>strtoip\<close> tests \<open>inet_pton(...) < 0\<close>, but a text that is not an address makes
  \<open>inet_pton\<close> return 0: no text is ever rejected.
\<close>

lemma strtoip_never_fails_on_rejected_text:
  "pton s = None \<Longrightarrow> strtoip pton junk s \<noteq> None"
  by (cases junk) (simp add: strtoip_def inet_pton_def)

text \<open>
  C6. With a library that rejects every text, \<open>strtoip\<close> still reports success on
  \<open>300.1.2.x\<close>, handing back the bytes the buffer happened to hold, and the line
  \<open>300.1.2.x/8\<close> of a prefix file is accepted as an entry.
\<close>

theorem strtoip_accepts_malformed:
  "strtoip (\<lambda>s. None) (1, 2, 3, 4) ''300.1.2.x'' = Some 0x01020304 \<and>
   read_lines (\<lambda>s. None) (\<lambda>k. (1, 2, 3, 4)) (\<lambda>s. 8) [''300.1.2.x/8''] []
     = Some [\<lparr>str = 0x01020304, len = 8\<rparr>]"
  by (simp add: strtoip_def inet_pton_def parse_line_def)

section \<open>Claims about the 128-bit extraction\<close>

text \<open>
  C7. At \<open>p = 64\<close> the source runs \<open>str.hi <<= 64\<close> and \<open>str.lo <<= 64\<close> and uses
  the results. On the masking platform both leave the word as it is, and the
  extraction of the low half of \<open>2^64\<close> yields 1 where the reference yields 0.
\<close>

theorem EXTRACT6_at_64_masking:
  "EXTRACT6 masking 64 64 \<lparr>hi = 1, lo = 0\<rparr> = \<lparr>hi = 0, lo = 1\<rparr> \<and>
   ipv6_value \<lparr>hi = 0, lo = 1\<rparr> = 1 \<and>
   extract_ref 64 64 (ipv6_value \<lparr>hi = 1, lo = 0\<rparr>) = 0"
  by (simp add: EXTRACT6_def shl64_def shr64_def masking_def ipv6_value_def extract_ref_def Let_def)

section \<open>Prefixes as bit strings\<close>

text \<open>
  \<open>topbits k s\<close> is the value of the first \<open>k\<close> bits of an address (all of it for
  \<open>k\<close> from 32 on). An entry covers an address that agrees with it on its first
  \<open>len\<close> bits; it is canonical when its bits after the first \<open>len\<close> are zero; it
  is nested in another entry when it is no longer than that entry and covers its
  address.
\<close>

definition topbits :: "int \<Rightarrow> ipv4 \<Rightarrow> ipv4" where
  "topbits k s = drop_bit (32 - nat k) s"

definition covers :: "base_t \<Rightarrow> ipv4 \<Rightarrow> bool" where
  "covers e x \<longleftrightarrow> topbits (len e) x = topbits (len e) (str e)"

definition canonical :: "base_t \<Rightarrow> bool" where
  "canonical e \<longleftrightarrow> take_bit (32 - nat (len e)) (str e) = 0"

definition nested :: "base_t \<Rightarrow> base_t \<Rightarrow> bool" where
  "nested e1 e2 \<longleftrightarrow> len e1 \<le> len e2 \<and> covers e1 (str e2)"

lemma EXTRACT_in_range:
  "0 \<le> p \<Longrightarrow> p < 32 \<Longrightarrow> 1 \<le> n \<Longrightarrow> n \<le> 32 \<Longrightarrow>
   EXTRACT pf p n s = drop_bit (nat (32 - n)) (push_bit (nat p) s)"
  by (simp add: EXTRACT_def shl32_def shr32_def)

lemma EXTRACT_width_in_range:
  "1 \<le> n \<Longrightarrow> n \<le> 32 \<Longrightarrow> EXTRACT pf p n s = drop_bit (nat (32 - n)) (shl32 pf s p)"
  by (simp add: EXTRACT_def shr32_def)

lemma REMOVE_in_range:
  "0 \<le> p \<Longrightarrow> p < 32 \<Longrightarrow> REMOVE pf p s = take_bit (32 - nat p) s"
  apply (simp add: REMOVE_def shl32_def shr32_def)
  apply (rule bit_word_eqI)
  apply (auto simp: bit_simps)
  done

lemma EXTRACT_one:
  assumes "0 \<le> i" "i < 32"
  shows "EXTRACT pf i 1 s = (if bit s (31 - nat i) then 1 else 0)"
proof -
  have e: "EXTRACT pf i 1 s = drop_bit 31 (push_bit (nat i) s)"
    using assms by (simp add: EXTRACT_in_range)
  have "bit (drop_bit 31 (push_bit (nat i) s)) m \<longleftrightarrow> m = 0 \<and> bit s (31 - nat i)" for m
    using assms by (auto simp: bit_simps)
  then have "drop_bit 31 (push_bit (nat i) s) = (if bit s (31 - nat i) then 1 else 0)"
    by (intro bit_word_eqI) (simp add: bit_simps)
  then show ?thesis using e by simp
qed

lemma EXTRACT_one_eq_iff:
  assumes "0 \<le> i" "i < 32"
  shows "EXTRACT pf i 1 a = EXTRACT pf i 1 b \<longleftrightarrow> bit a (31 - nat i) = bit b (31 - nat i)"
  by (simp add: EXTRACT_one[OF assms])

lemma topbits_step:
  assumes "0 \<le> i" "i < 32" "topbits i a = topbits i b" "bit a (31 - nat i) = bit b (31 - nat i)"
  shows "topbits (i + 1) a = topbits (i + 1) b"
proof -
  have n: "32 - nat (i + 1) = 31 - nat i" "32 - nat i = Suc (31 - nat i)"
    using assms by auto
  have "bit (drop_bit (Suc (31 - nat i)) a) m = bit (drop_bit (Suc (31 - nat i)) b) m" for m
    using assms(3) unfolding topbits_def n by simp
  then have t: "bit a (Suc (31 - nat i) + m) = bit b (Suc (31 - nat i) + m)" for m
    by (simp add: bit_drop_bit_eq)
  show ?thesis
    unfolding topbits_def n
  proof (rule bit_word_eqI)
    fix m
    show "bit (drop_bit (31 - nat i) a) m = bit (drop_bit (31 - nat i) b) m"
    proof (cases m)
      case 0
      then show ?thesis using assms(4) by (simp add: bit_simps)
    next
      case (Suc k)
      then show ?thesis using t[of k] by (simp add: bit_simps)
    qed
  qed
qed

lemma topbits_bit:
  assumes "0 \<le> i" "i < j" "j \<le> 32" "topbits j a = topbits j b"
  shows "bit a (31 - nat i) = bit b (31 - nat i)"
proof -
  have "bit (drop_bit (32 - nat j) a) (nat j - 1 - nat i) = bit (drop_bit (32 - nat j) b) (nat j - 1 - nat i)"
    using assms(4) by (simp add: topbits_def)
  moreover have "32 - nat j + (nat j - 1 - nat i) = 31 - nat i"
    using assms by auto
  ultimately show ?thesis by (simp add: bit_drop_bit_eq)
qed

lemma topbits_mono_le: "i \<le> j \<Longrightarrow> topbits j a = topbits j b \<Longrightarrow> topbits i a = topbits i b"
proof -
  assume a: "i \<le> j" "topbits j a = topbits j b"
  have "drop_bit (32 - nat i - (32 - nat j)) (drop_bit (32 - nat j) a) =
        drop_bit (32 - nat i - (32 - nat j)) (drop_bit (32 - nat j) b)"
    using a(2) by (simp add: topbits_def)
  moreover have "32 - nat i - (32 - nat j) + (32 - nat j) = 32 - nat i"
    using a(1) by auto
  ultimately show ?thesis
    by (simp add: topbits_def drop_bit_drop_bit add.commute)
qed

lemma topbits_zero [simp]: "topbits 0 a = 0"
  by (simp add: topbits_def)

lemma topbits_full: "32 \<le> k \<Longrightarrow> topbits k a = a"
  by (simp add: topbits_def)

lemma topbits_order:
  assumes "a \<le> x" "x \<le> b" "topbits k a = topbits k b"
  shows "topbits k x = topbits k a"
proof -
  have m: "u \<le> v \<Longrightarrow> topbits k u \<le> topbits k v" for u v :: ipv4
    unfolding topbits_def word_le_nat_alt unat_drop_bit_eq
    by (simp add: drop_bit_eq_div div_le_mono)
  from m[OF assms(1)] m[OF assms(2)] assms(3) show ?thesis by simp
qed

lemma newprefix_loop_Done:
  assumes "newprefix_loop pf fuel (REMOVE pf prefix b) (REMOVE pf prefix a) i = Done j"
    and "0 \<le> prefix" "prefix < 32" "prefix \<le> i" "topbits i a = topbits i b"
  shows "i \<le> j \<and> j < 32 \<and> topbits j a = topbits j b \<and> bit a (31 - nat j) \<noteq> bit b (31 - nat j)"
  using assms
proof (induction fuel arbitrary: i)
  case 0
  then show ?case by simp
next
  case (Suc fuel)
  show ?case
  proof (cases "i < 32")
    case False
    then have "a = b" using Suc.prems(5) by (simp add: topbits_full)
    then show ?thesis using Suc.prems(1) by (simp add: newprefix_loop_equal del: newprefix_loop.simps)
  next
    case True
    have r: "REMOVE pf prefix s = take_bit (32 - nat prefix) s" for s
      using Suc.prems by (simp add: REMOVE_in_range)
    have bt: "bit (take_bit (32 - nat prefix) s) (31 - nat i) = bit s (31 - nat i)" for s :: ipv4
      using Suc.prems True by (auto simp: bit_simps)
    have e: "EXTRACT pf i 1 (REMOVE pf prefix b) = EXTRACT pf i 1 (REMOVE pf prefix a)
              \<longleftrightarrow> bit a (31 - nat i) = bit b (31 - nat i)"
      using Suc.prems True by (auto simp: EXTRACT_one_eq_iff r bt)
    show ?thesis
    proof (cases "bit a (31 - nat i) = bit b (31 - nat i)")
      case True
      then have l: "newprefix_loop pf fuel (REMOVE pf prefix b) (REMOVE pf prefix a) (i + 1) = Done j"
        using Suc.prems(1) e by simp
      have "topbits (i + 1) a = topbits (i + 1) b"
        using topbits_step[of i a b] Suc.prems \<open>i < 32\<close> True by simp
      then show ?thesis
        using Suc.IH[OF l] Suc.prems by simp
    next
      case False
      then have "j = i" using Suc.prems(1) e by simp
      then show ?thesis using False True Suc.prems by simp
    qed
  qed
qed

text \<open>
  \<open>pattern np b s\<close> is what \<open>EXTRACT(np, b, s)\<close> returns when both shift counts
  are in range: the \<open>b\<close> bits of \<open>s\<close> from position \<open>np\<close> on, padded with
  zeros past the last bit.
\<close>

definition pattern :: "int \<Rightarrow> int \<Rightarrow> ipv4 \<Rightarrow> 32 word" where
  "pattern np b s = drop_bit (nat (32 - b)) (push_bit (nat np) s)"






section \<open>The base vector of a fresh build\<close>






lemma set_insert_sorted [simp]: "set (insert_sorted x ys) = insert x (set ys)"
  by (induction ys) auto

lemma set_std_sort [simp]: "set (std_sort xs) = set xs"
  by (induction xs) auto

lemma length_insert_sorted [simp]: "length (insert_sorted x ys) = Suc (length ys)"
  by (induction ys) auto





text \<open>
  What the coverage proof needs of a base vector: at most \<open>2^19\<close> entries, ordered
  by address, each with a length from 1 to 32 and no bit set after its length, and no
  entry nested in another. \<open>well_formed\<close> and \<open>prefix_free\<close> say the same of an
  input list, in any order.
\<close>

definition good_base :: "base_t list \<Rightarrow> bool" where
  "good_base bv \<longleftrightarrow>
     length bv \<le> 2 ^ 19 \<and>
     (\<forall>i j. i \<le> j \<and> j < length bv \<longrightarrow> str (bv ! i) \<le> str (bv ! j)) \<and>
     (\<forall>i. i < length bv \<longrightarrow> 1 \<le> len (bv ! i) \<and> len (bv ! i) \<le> 32 \<and> canonical (bv ! i)) \<and>
     (\<forall>i j. i < length bv \<and> j < length bv \<and> i \<noteq> j \<longrightarrow> \<not> nested (bv ! i) (bv ! j))"

definition prefix_free :: "base_t list \<Rightarrow> bool" where
  "prefix_free xs \<longleftrightarrow> (\<forall>a \<in> set xs. \<forall>b \<in> set xs. a \<noteq> b \<longrightarrow> \<not> nested a b)"

definition well_formed :: "base_t list \<Rightarrow> bool" where
  "well_formed xs \<longleftrightarrow> (\<forall>e \<in> set xs. 1 \<le> len e \<and> len e \<le> 32 \<and> canonical e)"


section \<open>Ranges of the base vector\<close>

text \<open>
  \<open>range_ok bv prefix first n\<close>: the entries \<open>first .. first+n-1\<close> exist and agree
  on their first \<open>prefix\<close> bits, which is what \<open>build_recursive\<close> is called with.
\<close>

definition range_ok :: "base_t list \<Rightarrow> int \<Rightarrow> int \<Rightarrow> int \<Rightarrow> bool" where
  "range_ok bv prefix first n \<longleftrightarrow>
     0 \<le> first \<and> 1 \<le> n \<and> first + n \<le> int (length bv) \<and> 0 \<le> prefix \<and>
     (\<forall>j. first \<le> j \<and> j < first + n \<longrightarrow>
        topbits prefix (str (bv ! nat j)) = topbits prefix (str (bv ! nat first)))"

lemma range_ok_bounds:
  "range_ok bv prefix first n \<Longrightarrow> 0 \<le> first \<and> 1 \<le> n \<and> first + n \<le> int (length bv) \<and> 0 \<le> prefix"
  by (simp add: range_ok_def)

lemma range_ok_share:
  "range_ok bv prefix first n \<Longrightarrow> first \<le> j \<Longrightarrow> j < first + n \<Longrightarrow>
   topbits prefix (str (bv ! nat j)) = topbits prefix (str (bv ! nat first))"
  unfolding range_ok_def by blast

lemma range_okI:
  assumes "0 \<le> first" "1 \<le> n" "first + n \<le> int (length bv)" "0 \<le> prefix"
    and "\<And>j. first \<le> j \<Longrightarrow> j < first + n \<Longrightarrow>
           topbits prefix (str (bv ! nat j)) = topbits prefix (str (bv ! nat first))"
  shows "range_ok bv prefix first n"
  unfolding range_ok_def using assms by blast

lemma base_at_Done: "0 \<le> i \<Longrightarrow> i < int (length bv) \<Longrightarrow> base_at bv i = Done (bv ! nat i)"
  by (simp add: base_at_def)

lemma good_base_not_nested:
  "good_base bv \<Longrightarrow> i < length bv \<Longrightarrow> j < length bv \<Longrightarrow> i \<noteq> j \<Longrightarrow> \<not> nested (bv ! i) (bv ! j)"
  by (simp add: good_base_def)

lemma good_base_sorted:
  "good_base bv \<Longrightarrow> i \<le> j \<Longrightarrow> j < length bv \<Longrightarrow> str (bv ! i) \<le> str (bv ! j)"
  by (simp add: good_base_def)

lemma good_base_entry:
  "good_base bv \<Longrightarrow> i < length bv \<Longrightarrow> 1 \<le> len (bv ! i) \<and> len (bv ! i) \<le> 32 \<and> canonical (bv ! i)"
  by (simp add: good_base_def)


lemma range_len_gt:
  assumes g: "good_base bv" and r: "range_ok bv np first n" and n: "2 \<le> n"
    and j: "first \<le> j" "j < first + n"
  shows "np < len (bv ! nat j)"
proof (rule ccontr)
  assume "\<not> np < len (bv ! nat j)"
  then have le: "len (bv ! nat j) \<le> np" by simp
  note rb = range_ok_bounds[OF r]
  have "\<exists>j'. first \<le> j' \<and> j' < first + n \<and> j' \<noteq> j"
  proof (cases "j = first")
    case True
    have "first \<le> first + 1 \<and> first + 1 < first + n \<and> first + 1 \<noteq> j" using True n by simp
    then show ?thesis by blast
  next
    case False
    have "first \<le> first \<and> first < first + n \<and> first \<noteq> j" using False n by simp
    then show ?thesis by blast
  qed
  then obtain j' where j': "first \<le> j'" "j' < first + n" "j' \<noteq> j" by blast
  have lj: "nat j < length bv" "nat j' < length bv" "nat j \<noteq> nat j'"
    using rb j j' by linarith+
  have sh: "topbits np (str (bv ! nat j)) = topbits np (str (bv ! nat j'))"
    using range_ok_share[OF r j] range_ok_share[OF r j'(1,2)] by simp
  have nn: "\<not> nested (bv ! nat j) (bv ! nat j')" "\<not> nested (bv ! nat j') (bv ! nat j)"
    using good_base_not_nested[OF g lj(1,2)] good_base_not_nested[OF g lj(2,1)] lj(3) by auto
  show False
  proof (cases "len (bv ! nat j) \<le> len (bv ! nat j')")
    case True
    have "topbits (len (bv ! nat j)) (str (bv ! nat j)) = topbits (len (bv ! nat j)) (str (bv ! nat j'))"
      by (rule topbits_mono_le[OF le sh])
    then show False using nn(1) True by (simp add: nested_def covers_def)
  next
    case False
    then have "len (bv ! nat j') \<le> np" using le by simp
    then have "topbits (len (bv ! nat j')) (str (bv ! nat j)) = topbits (len (bv ! nat j')) (str (bv ! nat j'))"
      by (rule topbits_mono_le[OF _ sh])
    then show False using nn(2) False by (simp add: nested_def covers_def)
  qed
qed

lemma range_prefix_lt_32:
  assumes "good_base bv" "range_ok bv np first n" "2 \<le> n"
  shows "np < 32"
proof -
  have f: "first \<le> first" "first < first + n" using assms(3) by auto
  have "np < len (bv ! nat first)" by (rule range_len_gt[OF assms f])
  moreover have "nat first < length bv" using range_ok_bounds[OF assms(2)] assms(3) by linarith
  then have "len (bv ! nat first) \<le> 32" using good_base_entry[OF assms(1)] by simp
  ultimately show ?thesis by simp
qed

lemma branch_loop_gt:
  "branch_loop pf fuel inner ff bv np first n b = Done b' \<Longrightarrow> b < b'"
proof (induction fuel arbitrary: b)
  case 0
  then show ?case by simp
next
  case (Suc fuel)
  from Suc.prems obtain pw where pw: "shl_int (b + 1) = Done pw"
    by (auto simp: obind_Done_iff)
  show ?case
  proof (cases "real_of_int n < ff * real_of_int pw \<or> (np + (b + 1)) mod 2 ^ 32 > 32")
    case True
    then show ?thesis using Suc.prems pw by auto
  next
    case False
    then obtain cnt where c: "pat_loop pf inner inner bv np (b + 1) (word_of_int pw) (first + n) first 0 0 = Done cnt"
      using Suc.prems pw by (auto simp: obind_Done_iff)
    show ?thesis
    proof (cases "real_of_int cnt \<ge> ff * real_of_int pw")
      case True
      then have "branch_loop pf fuel inner ff bv np first n (b + 1) = Done b'"
        using Suc.prems pw False c by auto
      then show ?thesis using Suc.IH[of "b + 1"] by simp
    next
      case F2: False
      then show ?thesis using Suc.prems pw False c by auto
    qed
  qed
qed

lemma obind_DoneE:
  assumes "obind m f = Done r"
  obtains v where "m = Done v" "f v = Done r"
  using assms by (cases m) simp_all

lemma compute_branch_Done:
  assumes g: "good_base bv" and r: "range_ok bv prefix first n" and n: "2 \<le> n"
    and c: "compute_branch pf fuel ff rbf bv prefix first n = Done (branch, np)"
  shows "prefix \<le> np \<and> np < 32 \<and> range_ok bv np first n \<and> 1 \<le> branch"
proof -
  have p32: "prefix < 32" by (rule range_prefix_lt_32[OF g r n])
  note rb = range_ok_bounds[OF r]
  have p0: "0 \<le> prefix" using rb by simp
  have i1: "0 \<le> first" "first < int (length bv)" "0 \<le> first + n - 1" "first + n - 1 < int (length bv)"
    using rb n by linarith+
  let ?a = "str (bv ! nat first)" and ?b = "str (bv ! nat (first + n - 1))"
  have c': "obind (newprefix_loop pf fuel (REMOVE pf prefix ?b) (REMOVE pf prefix ?a) prefix)
       (\<lambda>newprefix.
         if n = 2 then Done (1, newprefix)
         else if rbf > 0 \<and> prefix = 0 \<and> first = 0 then Done (rbf, newprefix)
         else obind (branch_loop pf fuel fuel ff bv newprefix first n 1) (\<lambda>b.
                Done (b - 1, newprefix))) = Done (branch, np)"
    using c unfolding compute_branch_def base_at_Done[OF i1(1,2)] base_at_Done[OF i1(3,4)]
    by (simp only: obind_simps)
  from c' obtain j where
    l: "newprefix_loop pf fuel (REMOVE pf prefix ?b) (REMOVE pf prefix ?a) prefix = Done j"
    and rest: "(if n = 2 then Done (1, j)
         else if rbf > 0 \<and> prefix = 0 \<and> first = 0 then Done (rbf, j)
         else obind (branch_loop pf fuel fuel ff bv j first n 1) (\<lambda>b. Done (b - 1, j))) = Done (branch, np)"
    by (rule obind_DoneE)
  have sh: "topbits prefix ?a = topbits prefix ?b"
    using range_ok_share[OF r, of "first + n - 1"] n by simp
  have L: "prefix \<le> j \<and> j < 32 \<and> topbits j ?a = topbits j ?b"
    using newprefix_loop_Done[OF l p0 p32 _ sh] by simp
  have "np = j \<and> 1 \<le> branch"
  proof (cases "n = 2")
    case True
    then show ?thesis using rest by simp
  next
    case n2: False
    show ?thesis
    proof (cases "rbf > 0 \<and> prefix = 0 \<and> first = 0")
      case True
      then show ?thesis using rest n2 by simp
    next
      case False
      then have "obind (branch_loop pf fuel fuel ff bv j first n 1) (\<lambda>b. Done (b - 1, j)) = Done (branch, np)"
        using rest n2 by (simp split: if_splits)
      then obtain b where b: "branch_loop pf fuel fuel ff bv j first n 1 = Done b" "Done (b - 1, j) = Done (branch, np)"
        by (rule obind_DoneE)
      then show ?thesis using branch_loop_gt[OF b(1)] by simp
    qed
  qed
  then have np: "np = j" and br: "1 \<le> branch" by simp_all
  have srt: "str (bv ! nat first) \<le> str (bv ! nat k) \<and> str (bv ! nat k) \<le> str (bv ! nat (first + n - 1))"
    if "first \<le> k" "k < first + n" for k
  proof -
    have "nat first \<le> nat k" "nat k < length bv" "nat k \<le> nat (first + n - 1)" "nat (first + n - 1) < length bv"
      using that i1 by linarith+
    then show ?thesis using good_base_sorted[OF g] by simp
  qed
  have shj: "topbits j (str (bv ! nat k)) = topbits j ?a" if "first \<le> k" "k < first + n" for k
    using topbits_order[of ?a "str (bv ! nat k)" ?b j] srt[OF that] L by blast
  have "range_ok bv j first n"
  proof (rule range_okI)
    show "0 \<le> first" "1 \<le> n" "first + n \<le> int (length bv)" "0 \<le> j"
      using rb L by simp_all
  qed (rule shj)
  then have "range_ok bv np first n" by (simp only: np)
  then show ?thesis using L np br by simp
qed


section \<open>Decoding nodes\<close>

lemma word_bits_below:
  fixes w :: "32 word"
  assumes "w < 2 ^ k" "bit w m"
  shows "m < k"
proof -
  have "take_bit k w = w"
    using less_mask_eq[OF assms(1)] by (simp add: take_bit_eq_mask)
  then have "bit (take_bit k w) m" using assms(2) by simp
  then show ?thesis by (simp add: bit_take_bit_iff)
qed

lemma decode_node:
  fixes B S A :: "32 word"
  assumes "B < 2 ^ 5" "S < 2 ^ 7" "A < 2 ^ 20"
  shows "GETBRANCH (SETBRANCH B OR SETSKIP S OR SETADR A) = B"
    and "GETSKIP (SETBRANCH B OR SETSKIP S OR SETADR A) = S"
    and "GETADR (SETBRANCH B OR SETSKIP S OR SETADR A) = A"
proof -
  have b: "bit B m \<Longrightarrow> m < 5" for m using word_bits_below[OF assms(1)] by simp
  have s: "bit S m \<Longrightarrow> m < 7" for m using word_bits_below[OF assms(2)] by simp
  have a: "bit A m \<Longrightarrow> m < 20" for m using word_bits_below[OF assms(3)] by simp
  have m127: "(127 :: 32 word) = mask 7" by (simp add: mask_eq_exp_minus_1)
  have m20: "(1048575 :: 32 word) = mask 20" by (simp add: mask_eq_exp_minus_1)
  show "GETBRANCH (SETBRANCH B OR SETSKIP S OR SETADR A) = B"
    unfolding GETBRANCH_def SETBRANCH_def SETSKIP_def SETADR_def
    by (rule bit_word_eqI) (auto simp: bit_simps dest: a b s bit_imp_le_length)
  show "GETSKIP (SETBRANCH B OR SETSKIP S OR SETADR A) = S"
    unfolding GETSKIP_def SETBRANCH_def SETSKIP_def SETADR_def m127
    by (rule bit_word_eqI) (auto simp: bit_simps dest: a b s bit_imp_le_length)
  show "GETADR (SETBRANCH B OR SETSKIP S OR SETADR A) = A"
    unfolding GETADR_def SETBRANCH_def SETSKIP_def SETADR_def m20
    by (rule bit_word_eqI) (auto simp: bit_simps dest: a b s bit_imp_le_length)
qed

lemma uint_word_of_int_small:
  "0 \<le> k \<Longrightarrow> k < 2 ^ 32 \<Longrightarrow> uint (word_of_int k :: 32 word) = k"
  by (simp add: uint_word_of_int)

lemma word_of_int_less:
  "0 \<le> k \<Longrightarrow> k < 2 ^ m \<Longrightarrow> m < 32 \<Longrightarrow> (word_of_int k :: 32 word) < 2 ^ m"
proof -
  assume a: "0 \<le> k" "k < 2 ^ m" "m < 32"
  have "(2::int) ^ m < 2 ^ 32" using a(3) power_strict_increasing[of m 32 "2::int"] by simp
  then have k: "k < 2 ^ 32" using a(2) by linarith
  show ?thesis
    using a k word_2p_lem[of m "word_of_int k :: 32 word"]
    by (simp add: word_size uint_word_of_int_small)
qed

lemma decode_internal:
  assumes "0 \<le> b" "b < 32" "0 \<le> s" "s < 128" "0 \<le> a" "a < 2 ^ 20"
  shows "uint (GETBRANCH (internal_node b s a)) = b"
    and "uint (GETSKIP (internal_node b s a)) = s"
    and "uint (GETADR (internal_node b s a)) = a"
proof -
  have B: "(word_of_int b :: 32 word) < 2 ^ 5" using word_of_int_less[of b 5] assms by simp
  have S: "(word_of_int s :: 32 word) < 2 ^ 7" using word_of_int_less[of s 7] assms by simp
  have A: "(word_of_int a :: 32 word) < 2 ^ 20" using word_of_int_less[of a 20] assms by simp
  note d = decode_node[OF B S A]
  have a32: "a < 2 ^ 32" using assms(6) by simp
  show "uint (GETBRANCH (internal_node b s a)) = b"
    unfolding internal_node_def d using assms by (simp add: uint_word_of_int_small)
  show "uint (GETSKIP (internal_node b s a)) = s"
    unfolding internal_node_def d using assms by (simp add: uint_word_of_int_small)
  show "uint (GETADR (internal_node b s a)) = a"
    unfolding internal_node_def d using assms a32 by (simp add: uint_word_of_int_small)
qed

lemma decode_leaf:
  assumes "0 \<le> f" "f < 2 ^ 20"
  shows "uint (GETBRANCH (word_of_int f)) = 0"
    and "uint (GETSKIP (word_of_int f)) = 0"
    and "uint (GETADR (word_of_int f)) = f"
proof -
  have "internal_node 0 0 f = word_of_int f"
    by (simp add: internal_node_def SETBRANCH_def SETSKIP_def SETADR_def)
  then show "uint (GETBRANCH (word_of_int f)) = 0" "uint (GETSKIP (word_of_int f)) = 0"
    "uint (GETADR (word_of_int f)) = f"
    using decode_internal[of 0 0 f] assms by simp_all
qed

lemma trie_at_tree_take:
  assumes "0 \<le> i" "i < NF" "NF \<le> tsize T"
  shows "trie_at (tree_take T NF) i = Done (cells T i)"
proof -
  have l: "length (tree_take T NF) = nat NF" by (simp add: tree_take_def)
  have "nat i < nat NF" using assms by simp
  then have "tree_take T NF ! nat i = cells T i"
    using assms by (simp add: tree_take_def)
  then show ?thesis using assms l by (simp add: trie_at_def)
qed





section \<open>Claims about search\<close>

text \<open>
  The three entries \<open>0/1\<close>, \<open>128.0.0.0/2\<close> and \<open>192.0.0.0/2\<close> are a prefix set as
  \<open>build\<close> expects it: lengths from 1 to 32, no bit set after the length, no entry
  nested in another.
\<close>

lemma short_prefix_input_valid:
  "well_formed [\<lparr>str = 0, len = 1\<rparr>, \<lparr>str = 0x80000000, len = 2\<rparr>, \<lparr>str = 0xC0000000, len = 2\<rparr>] \<and>
   prefix_free [\<lparr>str = 0, len = 1\<rparr>, \<lparr>str = 0x80000000, len = 2\<rparr>, \<lparr>str = 0xC0000000, len = 2\<rparr>]"
  by (simp add: well_formed_def prefix_free_def canonical_def nested_def covers_def topbits_def)

text \<open>
  C1. On these entries the root branches on two bits. The entry \<open>0/1\<close> is shorter
  than that, so \<open>build_recursive\<close> writes its leaf at the patterns \<open>00\<close> and \<open>01\<close>;
  but the enclosing loop goes on with the pattern \<open>01\<close>, finds no entry there and
  writes the neighbour \<open>128.0.0.0/2\<close> over the second copy. The address \<open>64.0.0.0\<close>
  agrees with \<open>0/1\<close> on its first bit, and \<open>search\<close> returns false on it; on the
  address of the entry itself it returns true.
\<close>

theorem fan_out_copies_overwritten:
  "build masking 40 (new_trie (1/2) 0)
     [\<lparr>str = 0, len = 1\<rparr>, \<lparr>str = 0x80000000, len = 2\<rparr>, \<lparr>str = 0xC0000000, len = 2\<rparr>]
   = Done (True,
       \<lparr>trie = [268435457, 0, 1, 1, 2],
        base = [\<lparr>str = 0, len = 1\<rparr>, \<lparr>str = 0x80000000, len = 2\<rparr>, \<lparr>str = 0xC0000000, len = 2\<rparr>],
        comp_fill_factor = 1/2, comp_root_branching_factor = 0, cached_stats = []\<rparr>,
       [\<lparr>str = 0, len = 1\<rparr>, \<lparr>str = 0x80000000, len = 2\<rparr>, \<lparr>str = 0xC0000000, len = 2\<rparr>]) \<and>
   covers \<lparr>str = 0, len = 1\<rparr> 0x40000000 \<and>
   search masking 40
     \<lparr>trie = [268435457, 0, 1, 1, 2],
      base = [\<lparr>str = 0, len = 1\<rparr>, \<lparr>str = 0x80000000, len = 2\<rparr>, \<lparr>str = 0xC0000000, len = 2\<rparr>],
      comp_fill_factor = 1/2, comp_root_branching_factor = 0, cached_stats = []\<rparr>
     0x40000000 = Done False \<and>
   search masking 40
     \<lparr>trie = [268435457, 0, 1, 1, 2],
      base = [\<lparr>str = 0, len = 1\<rparr>, \<lparr>str = 0x80000000, len = 2\<rparr>, \<lparr>str = 0xC0000000, len = 2\<rparr>],
      comp_fill_factor = 1/2, comp_root_branching_factor = 0, cached_stats = []\<rparr>
     0 = Done True"
  by (simp add: eval_defs fuel_numeral covers_def topbits_def cong: obind_weak_cong)

section \<open>What a call of build\_recursive leaves behind\<close>






subsection \<open>The loops of compute\_branch\<close>





text \<open>
  \<open>npat bv np b l h\<close> is the number of different \<open>b\<close>-bit patterns, taken after
  \<open>np\<close> bits, among the entries \<open>l\<close> to \<open>h - 1\<close>: the number of children of a node
  that hold entries of their own. \<open>root_extra\<close> is the size of a root array that was
  asked for with \<open>comp_root_branching_factor\<close>.
\<close>

definition npat :: "base_t list \<Rightarrow> int \<Rightarrow> int \<Rightarrow> int \<Rightarrow> int \<Rightarrow> int" where
  "npat bv np b l h = int (card ((\<lambda>j. pattern np b (str (bv ! nat j))) ` {l..<h}))"

definition root_extra :: "int \<Rightarrow> int \<Rightarrow> int" where
  "root_extra rbf prefix = (if rbf > 0 \<and> prefix = 0 then 2 ^ nat rbf else 0)"


lemma npat_nonneg: "0 \<le> npat bv np b l h"
  by (simp add: npat_def)







subsection \<open>The calls of build\_recursive\<close>

text \<open>
  \<open>call_post\<close> is what holds when \<open>build_recursive(tree, base, prefix, first, n, pos,
  nextfree)\<close> has returned \<open>tree'\<close> and \<open>nf'\<close>, the new \<open>*nextfree\<close>: the vector has
  kept its size, \<open>*nextfree\<close> has not gone down, the node at \<open>pos\<close> is the leaf for
  \<open>first\<close> or an internal node made with the old \<open>*nextfree\<close> as its address, no other
  node below the old \<open>*nextfree\<close> has changed, neighbours in the range have different
  addresses, and (\<open>tg\<close>: the fill factor is at least one half) the call has taken at
  most \<open>4 * n - 4\<close> new nodes, not counting a root array that was asked for.
  \<open>callee_ok\<close> says so of a callee, for every call on a range.
\<close>

definition call_post ::
  "base_t list \<Rightarrow> bool \<Rightarrow> int \<Rightarrow> tree_t \<Rightarrow> int \<Rightarrow> int \<Rightarrow> int \<Rightarrow> int \<Rightarrow> int \<Rightarrow> tree_t \<Rightarrow> int \<Rightarrow> bool" where
  "call_post bv tg rbf tree prefix first n pos nf tree' nf' \<longleftrightarrow>
     tsize tree' = tsize tree \<and> nf \<le> nf' \<and>
     (n = 1 \<longrightarrow> nf' = nf \<and> cells tree' pos = word_of_int first) \<and>
     (n \<noteq> 1 \<longrightarrow> (\<exists>B s. 1 \<le> B \<and> B \<le> 30 \<and> (n = 2 \<longrightarrow> B = 1) \<and> 0 \<le> s \<and> s < 32 \<and>
                          cells tree' pos = internal_node B s nf)) \<and>
     (\<forall>i. i < nf \<and> i \<noteq> pos \<longrightarrow> cells tree' i = cells tree i) \<and>
     (\<forall>i. first \<le> i \<and> i + 1 < first + n \<longrightarrow> str (bv ! nat i) \<noteq> str (bv ! nat (i + 1))) \<and>
     (tg \<longrightarrow> nf' + 4 \<le> nf + 4 * n + root_extra rbf prefix)"





lemma call_post_node:
  "call_post bv tg rbf tree prefix first n pos nf tree' nf' \<Longrightarrow> n \<noteq> 1 \<Longrightarrow>
   \<exists>B s. 1 \<le> B \<and> B \<le> 30 \<and> (n = 2 \<longrightarrow> B = 1) \<and> 0 \<le> s \<and> s < 32 \<and>
     cells tree' pos = internal_node B s nf"
  unfolding call_post_def by blast






subsection \<open>The fan-out loop\<close>


subsection \<open>The loop over the bit patterns\<close>






subsection \<open>build\_recursive\<close>



subsection \<open>build\<close>








section \<open>Claims about termination\<close>



section \<open>Inputs on which build returns\<close>

text \<open>
  The lemmas of this section give a budget that is enough for each loop: more than
  the number of rounds the loop can make. No loop of \<open>build\<close> makes \<open>2^31\<close> rounds.
\<close>

subsection \<open>The loops of compute\_branch\<close>







subsection \<open>The loops of build\_recursive\<close>








subsection \<open>build\_recursive and build\<close>




section \<open>Claims about the capacity of build\<close>









end
